theory Spec2Isabelle
  imports Complex_Main "HOL-Library.Word" "HOL-Library.AList" "HOL-Library.Sublist"
begin

section \<open>The delegation tracker of \<open>src/08-multi-agent-orchestration.ts\<close>\<close>

text \<open>
  The tracker is the body of \<open>run\<close>: the table \<open>toolRuns\<close>, the two closures
  \<open>startTicker\<close> and \<open>finishTicker\<close>, the helper \<open>extractText\<close>, and the loop over
  the messages of the agent runtime. The embedding follows the source branch by branch.
  Console output is a list of lines, one per \<open>console.log\<close> call; \<open>Date.now()\<close> is an
  integer number of milliseconds supplied with each block or event that reads the clock;
  the interval timers of the host are a list of closures with a cleared flag.
\<close>

subsection \<open>JavaScript strings\<close>

text \<open>
  A JavaScript string is a sequence of UTF-16 code units: \<open>length\<close> and \<open>slice\<close> count
  code units. \<open>str\<close> embeds an ASCII literal.
\<close>

type_synonym jsstring = "16 word list"

definition str :: "string \<Rightarrow> jsstring" where
  "str s = map (\<lambda>c. of_nat (of_char c)) s"

text \<open>\<open>String.prototype.trim\<close> removes white space and line terminators at both ends.\<close>

definition is_ws :: "16 word \<Rightarrow> bool" where
  "is_ws c \<longleftrightarrow> c \<in> {0x09, 0x0A, 0x0B, 0x0C, 0x0D, 0x20, 0xA0, 0x1680,
      0x2000, 0x2001, 0x2002, 0x2003, 0x2004, 0x2005, 0x2006, 0x2007, 0x2008, 0x2009, 0x200A,
      0x2028, 0x2029, 0x202F, 0x205F, 0x3000, 0xFEFF}"

definition trim :: "jsstring \<Rightarrow> jsstring" where
  "trim s = rev (dropWhile is_ws (rev (dropWhile is_ws s)))"

text \<open>\<open>Array.prototype.join\<close> on an array of strings.\<close>

fun join :: "jsstring \<Rightarrow> jsstring list \<Rightarrow> jsstring" where
  "join sep [] = []"
| "join sep [x] = x"
| "join sep (x # y # ys) = x @ sep @ join sep (y # ys)"

text \<open>Decimal numerals, as the conversion of an integral number to a string writes them.\<close>

fun digits :: "nat \<Rightarrow> jsstring" where
  "digits n = (if n < 10 then [of_nat (48 + n)] else digits (n div 10) @ [of_nat (48 + n mod 10)])"

declare digits.simps [simp del]

definition num_to_string :: "int \<Rightarrow> jsstring" where
  "num_to_string n = (if n < 0 then str ''-'' @ digits (nat (- n)) else digits (nat n))"

subsection \<open>JavaScript values\<close>

text \<open>
  The payloads the source reads through casts (\<open>as unknown as\<close>, \<open>Record<string, unknown>\<close>)
  are values of any JSON shape. Numbers inside payloads are taken to be integers (of
  magnitude below \<open>10^21\<close>, which a conversion to a string writes without exponent); an
  object is its list of properties, read with \<open>map_of\<close>.
\<close>

datatype jsval = JUndefined | JNull | JBool bool | JNum int | JStr jsstring
  | JArr "jsval list" | JObj "(jsstring \<times> jsval) list"

datatype error = TypeError

text \<open>Truthiness, as \<open>if (v)\<close>, \<open>v && ...\<close>, \<open>v ? ... : ...\<close> and \<open>!v\<close> test it.\<close>

definition truthy :: "jsval \<Rightarrow> bool" where
  "truthy v = (case v of JUndefined \<Rightarrow> False | JNull \<Rightarrow> False | JBool b \<Rightarrow> b
     | JNum n \<Rightarrow> n \<noteq> 0 | JStr s \<Rightarrow> s \<noteq> [] | JArr xs \<Rightarrow> True | JObj kvs \<Rightarrow> True)"

text \<open>\<open>a ?? b\<close>.\<close>

definition coalesce :: "jsval \<Rightarrow> jsval \<Rightarrow> jsval" where
  "coalesce a b = (if a = JUndefined \<or> a = JNull then b else a)"

text \<open>\<open>typeof v === 'object'\<close>.\<close>

definition typeof_object :: "jsval \<Rightarrow> bool" where
  "typeof_object v = (case v of JNull \<Rightarrow> True | JArr xs \<Rightarrow> True | JObj kvs \<Rightarrow> True | _ \<Rightarrow> False)"

text \<open>
  \<open>v?.k\<close> for a property name \<open>k\<close> that no prototype defines (\<open>text\<close>, \<open>output\<close>,
  \<open>content\<close>, \<open>subagent_type\<close>, \<open>description\<close>, \<open>prompt\<close>): the property of an object,
  \<open>undefined\<close> on every other value. Each plain access \<open>v.k\<close> of the source sits behind a
  test that \<open>v\<close> is neither \<open>null\<close> nor \<open>undefined\<close>, where it agrees with \<open>v?.k\<close>.
\<close>

definition get_prop :: "jsval \<Rightarrow> jsstring \<Rightarrow> jsval" where
  "get_prop v k = (case v of JObj kvs \<Rightarrow> (case map_of kvs k of Some x \<Rightarrow> x | None \<Rightarrow> JUndefined)
     | _ \<Rightarrow> JUndefined)"

text \<open>\<open>k in v\<close> for such a name and a \<open>v\<close> with \<open>typeof v === 'object'\<close> that is not \<open>null\<close>.\<close>

definition has_prop :: "jsstring \<Rightarrow> jsval \<Rightarrow> bool" where
  "has_prop k v = (case v of JObj kvs \<Rightarrow> k \<in> fst ` set kvs | _ \<Rightarrow> False)"

text \<open>
  \<open>String(v)\<close> and the conversion inside a template literal. An array joins its elements
  with commas, writing \<open>null\<close> and \<open>undefined\<close> elements as the empty string.
\<close>

fun to_string :: "jsval \<Rightarrow> jsstring" where
  "to_string JUndefined = str ''undefined''"
| "to_string JNull = str ''null''"
| "to_string (JBool b) = (if b then str ''true'' else str ''false'')"
| "to_string (JNum n) = num_to_string n"
| "to_string (JStr s) = s"
| "to_string (JArr xs) =
     join (str '','') (map (\<lambda>x. case x of JUndefined \<Rightarrow> [] | JNull \<Rightarrow> [] | _ \<Rightarrow> to_string x) xs)"
| "to_string (JObj kvs) = str ''[object Object]''"

subsection \<open>\<open>extractText\<close>\<close>

text \<open>The callback of \<open>content.map\<close> (lines 22 to 28).\<close>

definition entry_text :: "jsval \<Rightarrow> jsstring" where
  "entry_text entry =
     (case entry of
        JStr s \<Rightarrow> s
      | _ \<Rightarrow> if truthy entry \<and> typeof_object entry \<and> has_prop (str ''text'') entry
             then to_string (coalesce (get_prop entry (str ''text'')) (JStr []))
             else [])"

definition extractText :: "jsval \<Rightarrow> jsstring" where
  "extractText content =
     (case content of
        JStr s \<Rightarrow> trim s
      | JArr xs \<Rightarrow> trim (join (str '' '') (map entry_text xs))
      | _ \<Rightarrow> if truthy content \<and> typeof_object content \<and> has_prop (str ''text'') content
             then trim (to_string (coalesce (get_prop content (str ''text'')) (JStr [])))
             else [])"

subsection \<open>Output lines\<close>

text \<open>
  One constructor per \<open>console.log\<close> call of the tracker; \<open>render\<close> is the string the call
  prints. \<open>toFixed4\<close> is \<open>Number.prototype.toFixed(4)\<close> on a finite number of magnitude
  below \<open>10^21\<close>, given by its exact value: the nearest multiple of \<open>1/10000\<close>, the larger
  one on a tie, written with at least one digit before the point and four after it.
\<close>

definition toFixed4 :: "rat \<Rightarrow> jsstring" where
  "toFixed4 x =
     (let s = (if x < 0 then str ''-'' else []);
          n = nat \<lfloor>\<bar>x\<bar> * 10000 + 1 / 2\<rfloor>;
          m = digits n;
          m' = (if length m \<le> 4 then replicate (5 - length m) 0x30 @ m else m);
          k = length m'
      in s @ take (k - 4) m' @ str ''.'' @ drop (k - 4) m')"

datatype line =
    PlainText jsstring
  | Delegating jsval jsstring
  | UsingTool jsstring
  | ResultLine jsval jsstring
  | Update jsval jsstring
  | StillWorking jsval int
  | Returned jsval int
  | TotalDuration int
  | TotalCost rat
  | Finished

fun render :: "line \<Rightarrow> jsstring" where
  "render (PlainText t) = t"
| "render (Delegating subagent_type contextSuffix) =
     [0x0A, 0xD83D, 0xDE80] @ str '' Delegating to '' @ to_string subagent_type
       @ str '' subagent'' @ contextSuffix"
| "render (UsingTool name) = [0x0A, 0xD83D, 0xDE80] @ str '' Using tool: '' @ name"
| "render (ResultLine lbl summary) =
     [0x0A, 0xD83D, 0xDCE5] @ str '' '' @ to_string lbl @ str '' result: '' @ summary"
| "render (Update lbl progress) =
     [0x0A, 0xD83D, 0xDD04] @ str '' '' @ to_string lbl @ str '' update: '' @ progress"
| "render (StillWorking lbl elapsed) =
     [0x0A, 0x23F3] @ str '' '' @ to_string lbl @ str '' subagent still working (''
       @ num_to_string elapsed @ str ''s elapsed)...''"
| "render (Returned lbl secs) =
     [0x0A, 0x2705] @ str '' '' @ to_string lbl @ str '' subagent returned after ''
       @ num_to_string secs @ str ''s.''"
| "render (TotalDuration duration_ms) =
     [0x0A, 0x23F1, 0xFE0F] @ str '' Total duration: '' @ num_to_string duration_ms @ str ''ms''"
| "render (TotalCost total_cost_usd) =
     [0xD83D, 0xDCB0] @ str '' Total cost: $'' @ toFixed4 total_cost_usd"
| "render Finished = [0x0A, 0x2705] @ str '' Multi-agent orchestration example finished.''"

subsection \<open>The registry and the interval timers\<close>

text \<open>
  \<open>toolRuns\<close> is a \<open>Map\<close>: an association list in insertion order, where \<open>set\<close> on a
  present key replaces the value in place (\<open>AList.update\<close>). \<open>setInterval\<close> appends a
  closure to \<open>intervals\<close> and returns its index as the handle; the closure of
  \<open>startTicker\<close> holds \<open>label\<close> and the object \<open>entry\<close>, whose \<open>start\<close> no statement
  assigns after creation. \<open>clearInterval\<close> marks the closure cleared and is counted.
\<close>

record entry =
  label :: jsval
  start :: int
  ticker :: "nat option"

record interval =
  ilabel :: jsval
  istart :: int
  cleared :: bool

record state =
  toolRuns :: "(jsstring \<times> entry) list"
  intervals :: "interval list"
  cancelled :: nat

definition init :: state where
  "init = \<lparr>toolRuns = [], intervals = [], cancelled = 0\<rparr>"

text \<open>\<open>Math.round((now - start) / 1000)\<close>: the nearest integer, a tie going up.\<close>

definition elapsed_secs :: "int \<Rightarrow> int \<Rightarrow> int" where
  "elapsed_secs now t0 = (now - t0 + 500) div 1000"

definition setInterval :: "jsval \<Rightarrow> int \<Rightarrow> state \<Rightarrow> nat \<times> state" where
  "setInterval lbl t0 s =
     (length (intervals s),
      s\<lparr>intervals := intervals s @ [\<lparr>ilabel = lbl, istart = t0, cleared = False\<rparr>]\<rparr>)"

definition clearInterval :: "nat \<Rightarrow> state \<Rightarrow> state" where
  "clearInterval h s =
     s\<lparr>intervals := (if h < length (intervals s)
                       then (intervals s)[h := (intervals s ! h)\<lparr>cleared := True\<rparr>]
                       else intervals s),
       cancelled := cancelled s + 1\<rparr>"

text \<open>One firing of interval \<open>h\<close> at clock reading \<open>now\<close>; a cleared interval never fires.\<close>

definition tick :: "nat \<Rightarrow> int \<Rightarrow> state \<Rightarrow> line list" where
  "tick h now s =
     (if h < length (intervals s) \<and> \<not> cleared (intervals s ! h)
      then [StillWorking (ilabel (intervals s ! h)) (elapsed_secs now (istart (intervals s ! h)))]
      else [])"

definition startTicker :: "jsstring \<Rightarrow> jsval \<Rightarrow> state \<Rightarrow> state" where
  "startTicker i lbl s =
     (case map_of (toolRuns s) i of
        None \<Rightarrow> s
      | Some e \<Rightarrow>
          (let (h, s1) = setInterval lbl (start e) s
           in s1\<lparr>toolRuns := AList.update i (e\<lparr>ticker := Some h\<rparr>) (toolRuns s1)\<rparr>))"

text \<open>\<open>finishTicker(id, label)\<close>; an omitted \<open>label\<close> is \<open>undefined\<close>.\<close>

definition finishTicker :: "jsstring \<Rightarrow> jsval \<Rightarrow> int \<Rightarrow> state \<Rightarrow> line list \<times> state" where
  "finishTicker i lbl now s =
     (case map_of (toolRuns s) i of
        None \<Rightarrow> ([], s)
      | Some e \<Rightarrow>
          (let s1 = (case ticker e of Some h \<Rightarrow> clearInterval h s | None \<Rightarrow> s);
               out = (if truthy lbl then [Returned lbl (elapsed_secs now (start e))] else [])
           in (out, s1\<lparr>toolRuns := AList.delete i (toolRuns s1)\<rparr>)))"

subsection \<open>The message loop\<close>

text \<open>
  An optional string field (\<open>id?: string\<close>, \<open>tool_use_id?: string\<close>) is a
  \<open>jsstring option\<close>; \<open>present\<close> is its truthiness test, which the empty string fails.
\<close>

definition present :: "jsstring option \<Rightarrow> jsstring option" where
  "present x = (case x of Some i \<Rightarrow> if i = [] then None else Some i | None \<Rightarrow> None)"

text \<open>\<open>toolRuns.get(id)?.label\<close>.\<close>

definition lookup_label :: "state \<Rightarrow> jsstring \<Rightarrow> jsval" where
  "lookup_label s i = (case map_of (toolRuns s) i of Some e \<Rightarrow> label e | None \<Rightarrow> JUndefined)"

text \<open>\<open>toolUseId ? toolRuns.get(toolUseId)?.label ?? 'subagent' : 'subagent'\<close>.\<close>

definition label_or_fallback :: "state \<Rightarrow> jsstring option \<Rightarrow> jsval" where
  "label_or_fallback s toolUseId =
     (case present toolUseId of
        Some i \<Rightarrow> coalesce (lookup_label s i) (JStr (str ''subagent''))
      | None \<Rightarrow> JStr (str ''subagent''))"

text \<open>
  Line 141: the suffix of the dispatch line. \<open>context.slice\<close> exists on strings and arrays
  only; calling it on a truthy number, boolean or object raises.
\<close>

definition context_suffix :: "jsval \<Rightarrow> error + jsstring" where
  "context_suffix context =
     (if truthy context then
        (case context of
           JStr c \<Rightarrow> Inr (str '' '' @ [0x2014] @ str '' '' @ take 90 c
                         @ (if length c > 90 then [0x2026] else []))
         | JArr xs \<Rightarrow> Inr (str '' '' @ [0x2014] @ str '' '' @ to_string (JArr (take 90 xs))
                         @ (if length xs > 90 then [0x2026] else []))
         | _ \<Rightarrow> Inl TypeError)
      else Inr [])"

text \<open>A \<open>tool_use\<close> block (lines 133 to 151).\<close>

definition on_tool_use ::
  "jsstring option \<Rightarrow> jsstring \<Rightarrow> jsval \<Rightarrow> int \<Rightarrow> state \<Rightarrow> error + (line list \<times> state)" where
  "on_tool_use id' name input now s =
     (let subagent_type = get_prop input (str ''subagent_type'') in
      case (if truthy subagent_type then present id' else None) of
        Some i \<Rightarrow>
          (let s1 = s\<lparr>toolRuns :=
                       AList.update i \<lparr>label = subagent_type, start = now, ticker = None\<rparr> (toolRuns s)\<rparr>;
               context = coalesce (get_prop input (str ''description'')) (get_prop input (str ''prompt''))
           in case context_suffix context of
                Inl err \<Rightarrow> Inl err
              | Inr contextSuffix \<Rightarrow>
                  Inr ([Delegating subagent_type contextSuffix], startTicker i subagent_type s1))
      | None \<Rightarrow>
          Inr ([UsingTool name],
               (case present id' of
                  Some i \<Rightarrow> s\<lparr>toolRuns :=
                              AList.update i \<lparr>label = JStr name, start = now, ticker = None\<rparr> (toolRuns s)\<rparr>
                | None \<Rightarrow> s)))"

text \<open>A block that is neither \<open>text\<close> nor \<open>tool_use\<close> (lines 153 to 165).\<close>

definition on_other_block :: "jsval \<Rightarrow> jsstring option \<Rightarrow> int \<Rightarrow> state \<Rightarrow> line list \<times> state" where
  "on_other_block content toolUseId now s =
     (let summary = extractText (coalesce content (JStr []));
          out1 = (if summary \<noteq> [] then [ResultLine (label_or_fallback s toolUseId) summary] else [])
      in case present toolUseId of
           Some i \<Rightarrow> (let (out2, s') = finishTicker i (lookup_label s i) now s in (out1 @ out2, s'))
         | None \<Rightarrow> (out1, s))"

text \<open>
  The text of a \<open>stream_event\<close> (lines 173 to 191): \<open>progress\<close> starts as the empty
  string and may end as any value, since \<open>outputTextDelta.text\<close> is assigned unchecked.
\<close>

definition delta_progress :: "jsval \<Rightarrow> jsval" where
  "delta_progress delta =
     (if truthy delta then
        (case get_prop delta (str ''text'') of
           JStr t \<Rightarrow> JStr t
         | _ \<Rightarrow>
           (case get_prop delta (str ''output'') of
              JStr t \<Rightarrow> JStr t
            | JArr xs \<Rightarrow> JStr (extractText (JArr xs))
            | _ \<Rightarrow>
              (case get_prop delta (str ''content'') of
                 JArr xs \<Rightarrow> JStr (extractText (JArr xs))
               | _ \<Rightarrow> JStr [])))
      else JStr [])"

definition event_progress :: "(jsstring \<times> jsval) list \<Rightarrow> jsval" where
  "event_progress event =
     (let progress = delta_progress (get_prop (JObj event) (str ''delta''));
          outputTextDelta = get_prop (JObj event) (str ''output_text_delta'')
      in if \<not> truthy progress \<and> truthy (get_prop outputTextDelta (str ''text''))
         then get_prop outputTextDelta (str ''text'')
         else progress)"

text \<open>Lines 169 and 171: the type and the task id of a \<open>stream_event\<close>, when they are strings.\<close>

definition event_type :: "(jsstring \<times> jsval) list \<Rightarrow> jsstring" where
  "event_type event = (case get_prop (JObj event) (str ''type'') of JStr t \<Rightarrow> t | _ \<Rightarrow> [])"

definition event_tool_use_id :: "(jsstring \<times> jsval) list \<Rightarrow> jsstring option" where
  "event_tool_use_id event =
     (case get_prop (JObj event) (str ''tool_use_id'') of JStr t \<Rightarrow> Some t | _ \<Rightarrow> None)"

text \<open>A \<open>stream_event\<close> message (lines 167 to 199); \<open>progress.trim()\<close> raises off strings.\<close>

definition on_stream_event ::
  "(jsstring \<times> jsval) list \<Rightarrow> int \<Rightarrow> state \<Rightarrow> error + (line list \<times> state)" where
  "on_stream_event event now s =
     (let eventType = event_type event
      in if prefix (str ''tool_result'') eventType then
           (let toolUseId = event_tool_use_id event;
                lbl = label_or_fallback s toolUseId
            in case event_progress event of
                 JStr progress \<Rightarrow>
                   (let out1 = (if trim progress \<noteq> [] then [Update lbl (trim progress)] else [])
                    in case (if eventType = str ''tool_result'' then present toolUseId else None) of
                         Some i \<Rightarrow> (let (out2, s') = finishTicker i lbl now s
                                    in Inr (out1 @ out2, s'))
                       | None \<Rightarrow> Inr (out1, s))
               | _ \<Rightarrow> Inl TypeError)
         else Inr ([], s))"

text \<open>
  The content blocks of an assistant message, by \<open>block.type\<close>: \<open>text\<close> with its text,
  \<open>tool_use\<close> with \<open>id\<close>, \<open>name\<close> and \<open>input\<close>, any other with \<open>content\<close> and
  \<open>tool_use_id\<close>. Each block comes with the clock reading of its handling.
\<close>

datatype block =
    TextBlock jsstring
  | ToolUse "jsstring option" jsstring jsval
  | OtherBlock jsval "jsstring option"

fun on_block :: "block \<Rightarrow> int \<Rightarrow> state \<Rightarrow> error + (line list \<times> state)" where
  "on_block (TextBlock t) now s = Inr ([PlainText t], s)"
| "on_block (ToolUse id' name input) now s = on_tool_use id' name input now s"
| "on_block (OtherBlock content toolUseId) now s = Inr (on_other_block content toolUseId now s)"

fun on_blocks :: "(block \<times> int) list \<Rightarrow> state \<Rightarrow> error + (line list \<times> state)" where
  "on_blocks [] s = Inr ([], s)"
| "on_blocks ((b, now) # bs) s =
     (case on_block b now s of
        Inl err \<Rightarrow> Inl err
      | Inr (out1, s1) \<Rightarrow>
          (case on_blocks bs s1 of
             Inl err \<Rightarrow> Inl err
           | Inr (out2, s2) \<Rightarrow> Inr (out1 @ out2, s2)))"

text \<open>
  The messages of the runtime, by \<open>message.type\<close>: \<open>assistant\<close> with its content
  blocks, \<open>stream_event\<close> with its event object and the clock reading of its handling,
  \<open>result\<close> with \<open>duration_ms\<close> (an integral number of milliseconds) and
  \<open>total_cost_usd\<close> (the exact value of the number), and every other type, which the
  loop skips.
\<close>

datatype message =
    Assistant "(block \<times> int) list"
  | StreamEvent "(jsstring \<times> jsval) list" int
  | Result int rat
  | OtherMessage

fun on_message :: "message \<Rightarrow> state \<Rightarrow> error + (line list \<times> state)" where
  "on_message (Assistant blocks) s = on_blocks blocks s"
| "on_message (StreamEvent event now) s = on_stream_event event now s"
| "on_message (Result duration_ms total_cost_usd) s =
     Inr ([TotalDuration duration_ms, TotalCost total_cost_usd], s)"
| "on_message OtherMessage s = Inr ([], s)"

text \<open>
  What the event loop delivers while \<open>run\<close> awaits: the next message, or a firing of an
  interval.
\<close>

datatype event = Message message | Tick nat int

fun step :: "event \<Rightarrow> state \<Rightarrow> error + (line list \<times> state)" where
  "step (Message m) s = on_message m s"
| "step (Tick h now) s = Inr (tick h now s, s)"

fun steps :: "event list \<Rightarrow> state \<Rightarrow> error + (line list \<times> state)" where
  "steps [] s = Inr ([], s)"
| "steps (ev # evs) s =
     (case step ev s of
        Inl err \<Rightarrow> Inl err
      | Inr (out1, s1) \<Rightarrow>
          (case steps evs s1 of
             Inl err \<Rightarrow> Inl err
           | Inr (out2, s2) \<Rightarrow> Inr (out1 @ out2, s2)))"

text \<open>
  Lines 206 to 208: \<open>finishTicker(id)\<close> for every key of \<open>toolRuns\<close>. The label is
  \<open>undefined\<close>, so the clock is not read.
\<close>

definition cleanup :: "state \<Rightarrow> line list \<times> state" where
  "cleanup s =
     fold (\<lambda>i (out, s1). let (out2, s2) = finishTicker i JUndefined 0 s1 in (out @ out2, s2))
       (map fst (toolRuns s)) ([], s)"

text \<open>
  \<open>run\<close> from the first message to line 210. An exception leaves the loop for the
  \<open>catch\<close> block, which ends the process.
\<close>

definition run :: "event list \<Rightarrow> error + (line list \<times> state)" where
  "run evs =
     (case steps evs init of
        Inl err \<Rightarrow> Inl err
      | Inr (out1, s1) \<Rightarrow> (let (out2, s2) = cleanup s1 in Inr (out1 @ out2 @ [Finished], s2)))"

subsection \<open>Predicates of the statements\<close>

text \<open>
  An item of a sequence that is neither a string nor an object with a \<open>text\<close> field.
\<close>

definition unrecognized :: "jsval \<Rightarrow> bool" where
  "unrecognized x = (case x of JStr s \<Rightarrow> False | JObj kvs \<Rightarrow> str ''text'' \<notin> fst ` set kvs | _ \<Rightarrow> True)"

text \<open>The line that reports a normalized result.\<close>

definition is_result_line :: "line \<Rightarrow> bool" where
  "is_result_line l = (case l of ResultLine lbl t \<Rightarrow> True | _ \<Rightarrow> False)"

text \<open>A decimal digit; a line of the run statistics; the statistics lines an event calls for.\<close>

definition is_digit :: "16 word \<Rightarrow> bool" where
  "is_digit c \<longleftrightarrow> c \<in> {0x30, 0x31, 0x32, 0x33, 0x34, 0x35, 0x36, 0x37, 0x38, 0x39}"

definition is_stats_line :: "line \<Rightarrow> bool" where
  "is_stats_line l = (case l of TotalDuration d \<Rightarrow> True | TotalCost c \<Rightarrow> True | _ \<Rightarrow> False)"

definition stats_of :: "event \<Rightarrow> line list" where
  "stats_of ev = (case ev of Message (Result d c) \<Rightarrow> [TotalDuration d, TotalCost c] | _ \<Rightarrow> [])"

text \<open>
  The registry as a partial map; the line that reports a completion; the events of the
  specification's \<open>onProgress\<close> whose \<open>output_text_delta.text\<close> has the declared type
  (a string) or is falsy.
\<close>

definition registry :: "state \<Rightarrow> jsstring \<Rightarrow> entry option" where
  "registry s = map_of (toolRuns s)"


text \<open>The ids that the \<open>tool_use\<close> blocks of an event carry.\<close>

definition block_dispatches :: "block \<Rightarrow> jsstring set" where
  "block_dispatches b = (case b of ToolUse (Some i) name input \<Rightarrow> {i} | _ \<Rightarrow> {})"

definition dispatched :: "event \<Rightarrow> jsstring set" where
  "dispatched ev = (case ev of Message (Assistant bs) \<Rightarrow> (\<Union>b\<in>set bs. block_dispatches (fst b)) | _ \<Rightarrow> {})"


text \<open>
  The label a \<open>tool_use\<close> block registers (the delegated role when the payload carries a
  truthy one, else the tool name), and the context of its dispatch line (line 140).
\<close>

definition dispatch_label :: "jsstring \<Rightarrow> jsval \<Rightarrow> jsval" where
  "dispatch_label name input =
     (if truthy (get_prop input (str ''subagent_type''))
      then get_prop input (str ''subagent_type'') else JStr name)"

definition dispatch_context :: "jsval \<Rightarrow> jsval" where
  "dispatch_context input =
     coalesce (get_prop input (str ''description'')) (get_prop input (str ''prompt''))"




text \<open>
  The invariant of the tracker's state: a registered id is non-empty and its label is
  neither \<open>undefined\<close> nor \<open>null\<close>; the ticker of a registered entry is a live
  interval whose closure holds the entry's label and start, and the label is truthy; no
  two registered entries share a ticker.
\<close>

definition wf_state :: "state \<Rightarrow> bool" where
  "wf_state s \<longleftrightarrow>
     (\<forall>i e. registry s i = Some e \<longrightarrow> i \<noteq> [] \<and> label e \<noteq> JUndefined \<and> label e \<noteq> JNull)
     \<and> (\<forall>i e h. registry s i = Some e \<and> ticker e = Some h \<longrightarrow>
           h < length (intervals s) \<and> \<not> cleared (intervals s ! h)
           \<and> istart (intervals s ! h) = start e \<and> ilabel (intervals s ! h) = label e
           \<and> truthy (label e))
     \<and> (\<forall>i j e e' h. registry s i = Some e \<and> registry s j = Some e'
           \<and> ticker e = Some h \<and> ticker e' = Some h \<longrightarrow> i = j)"

text \<open>
  The precondition of the specification's \<open>onDispatch\<close>: no \<open>tool_use\<close> block carries
  an id that is registered when the block is handled.
\<close>

fun fresh_block :: "block \<Rightarrow> state \<Rightarrow> bool" where
  "fresh_block (ToolUse id' name input) s =
     (case present id' of Some i \<Rightarrow> registry s i = None | None \<Rightarrow> True)"
| "fresh_block (TextBlock t) s = True"
| "fresh_block (OtherBlock content toolUseId) s = True"

fun fresh_blocks :: "(block \<times> int) list \<Rightarrow> state \<Rightarrow> bool" where
  "fresh_blocks [] s = True"
| "fresh_blocks ((b, now) # bs) s =
     (fresh_block b s \<and>
      (case on_block b now s of Inl err \<Rightarrow> True | Inr (out, s1) \<Rightarrow> fresh_blocks bs s1))"

fun fresh_step :: "event \<Rightarrow> state \<Rightarrow> bool" where
  "fresh_step (Message (Assistant bs)) s = fresh_blocks bs s"
| "fresh_step ev s = True"

fun fresh_steps :: "event list \<Rightarrow> state \<Rightarrow> bool" where
  "fresh_steps [] s = True"
| "fresh_steps (ev # evs) s =
     (fresh_step ev s \<and>
      (case step ev s of Inl err \<Rightarrow> True | Inr (out, s1) \<Rightarrow> fresh_steps evs s1))"

text \<open>
  Every interval is cleared or is the ticker of a registered entry, and each call of
  \<open>clearInterval\<close> cleared one interval.
\<close>

definition tight :: "state \<Rightarrow> bool" where
  "tight s \<longleftrightarrow>
     (\<forall>h<length (intervals s). cleared (intervals s ! h)
         \<or> (\<exists>i e. registry s i = Some e \<and> ticker e = Some h))
     \<and> cancelled s = length (filter cleared (intervals s))"

section \<open>Properties\<close>

subsection \<open>Strings\<close>

lemma unit_inj: "(of_nat (of_char c) :: 16 word) = of_nat (of_char d) \<longleftrightarrow> c = d"
proof -
  have lt: "(of_char x :: nat) < 2 ^ 16" for x
  proof -
    have "(of_char x :: nat) mod 256 < 256" by (rule mod_less_divisor) simp
    then have "(of_char x :: nat) < 256" by (simp only: of_char_mod_256)
    then show ?thesis by (rule less_trans) simp
  qed
  have "unat (of_nat (of_char x) :: 16 word) = of_char x" for x
    using lt [of x] by (simp add: unat_of_nat take_bit_nat_eq_self)
  then show ?thesis
    by (metis of_char_eq_iff)
qed

lemma str_eq_iff [simp]: "str a = str b \<longleftrightarrow> a = b"
proof -
  have "inj (\<lambda>c. of_nat (of_char c) :: 16 word)"
    by (rule injI) (simp only: unit_inj)
  then show ?thesis
    unfolding str_def by (rule inj_map_eq_map)
qed

lemma str_Nil [simp]: "str [] = []" "str s = [] \<longleftrightarrow> s = []" "[] = str s \<longleftrightarrow> s = []"
  by (auto simp: str_def)


lemma trim_all_ws:
  assumes "\<forall>c\<in>set s. is_ws c"
  shows "trim s = []"
proof -
  have a: "dropWhile is_ws s = []" using assms by simp
  show ?thesis unfolding trim_def a by simp
qed


lemma entry_text_unrecognized: "unrecognized u \<Longrightarrow> entry_text u = []"
  by (auto simp: unrecognized_def entry_text_def has_prop_def split: jsval.splits)

lemma join_empties: "\<forall>x\<in>set ys. x = [] \<Longrightarrow> \<forall>c\<in>set (join (str '' '') ys). is_ws c"
  by (induction "str '' ''" ys rule: join.induct) (auto simp: str_def is_ws_def)

lemma extractText_all_unrecognized:
  assumes "\<forall>x\<in>set xs. unrecognized x"
  shows "extractText (JArr xs) = []"
proof -
  have "\<forall>x\<in>set (map entry_text xs). x = []"
    using assms by (simp add: entry_text_unrecognized)
  then have "\<forall>c\<in>set (join (str '' '') (map entry_text xs)). is_ws c"
    by (rule join_empties)
  then show ?thesis
    by (simp add: extractText_def trim_all_ws)
qed

lemma no_result_line_when_empty:
  assumes "extractText (coalesce content (JStr [])) = []"
  shows "filter is_result_line (fst (on_other_block content toolUseId now s)) = []"
  using assms
  by (auto simp: on_other_block_def finishTicker_def is_result_line_def Let_def
      split: option.splits prod.splits)



lemma extractText_hello: "extractText (JStr (str ''hello'')) = str ''hello''"
  by (simp add: extractText_def trim_def str_def is_ws_def)

lemma extractText_object: "extractText (JObj [(str ''text'', JStr (str ''hello''))]) = str ''hello''"
  by (simp add: extractText_def truthy_def typeof_object_def has_prop_def get_prop_def coalesce_def)
     (simp add: trim_def str_def is_ws_def)

lemma extractText_sequence: "extractText (JArr [JStr (str ''a''), JObj [(str ''text'', JStr (str ''b''))], JStr (str ''c'')]) = str ''a b c''"
  by (simp add: extractText_def entry_text_def truthy_def typeof_object_def has_prop_def get_prop_def coalesce_def)
     (simp add: trim_def str_def is_ws_def)

subsection \<open>Text normalization\<close>

text \<open>
  C3. \<open>extractText\<close> maps the string \<open>"hello"\<close> to \<open>"hello"\<close>, the object
  \<open>{text: "hello"}\<close> to \<open>"hello"\<close> and the sequence \<open>["a", {text: "b"}, "c"]\<close> to
  \<open>"a b c"\<close>; the empty sequence and every sequence of unrecognized items give the empty
  string; and when the normalized content of a result block is empty, the block prints
  no result line.
\<close>

theorem extractText_shapes:
  "extractText (JStr (str ''hello'')) = str ''hello''
   \<and> extractText (JObj [(str ''text'', JStr (str ''hello''))]) = str ''hello''
   \<and> extractText (JArr [JStr (str ''a''), JObj [(str ''text'', JStr (str ''b''))], JStr (str ''c'')]) = str ''a b c''
   \<and> extractText (JArr []) = []
   \<and> ((\<forall>x\<in>set xs. unrecognized x) \<longrightarrow> extractText (JArr xs) = [])
   \<and> (extractText (coalesce content (JStr [])) = [] \<longrightarrow>
        filter is_result_line (fst (on_other_block content toolUseId now s)) = [])"
  using extractText_hello extractText_object extractText_sequence extractText_all_unrecognized [of xs] no_result_line_when_empty [of content toolUseId now s]
  by (simp add: extractText_def trim_def)

theorem extractText_shapes_witness:
  "unrecognized (JNum 42) \<and> unrecognized JNull
   \<and> unrecognized (JObj [(str ''name'', JStr (str ''x''))])
   \<and> extractText (JArr [JNum 42, JNull, JObj [(str ''name'', JStr (str ''x''))]]) = []
   \<and> extractText (coalesce (JArr [JNum 42]) (JStr [])) = []
   \<and> filter is_result_line (fst (on_other_block (JArr [JNum 42]) (Some (str ''t1'')) 7 init)) = []"
proof -
  have h1: "\<forall>x\<in>set [JNum 42, JNull, JObj [(str ''name'', JStr (str ''x''))]]. unrecognized x"
    by (simp add: unrecognized_def)
  have u: "unrecognized (JNum 42)"
    by (simp add: unrecognized_def)
  have h2: "extractText (coalesce (JArr [JNum 42]) (JStr [])) = []"
    using extractText_all_unrecognized [of "[JNum 42]"] u by (simp add: coalesce_def)
  from h1 h2 u
    extractText_shapes [of "[JNum 42, JNull, JObj [(str ''name'', JStr (str ''x''))]]" "JArr [JNum 42]"
        "Some (str ''t1'')" 7 init]
  show ?thesis by simp
qed




subsection \<open>Run statistics\<close>

lemma digit_char: "k < 10 \<Longrightarrow> is_digit (of_nat (48 + k))"
proof -
  assume "k < 10"
  then have "k \<in> {0, 1, 2, 3, 4, 5, 6, 7, 8, 9}" by auto
  then show ?thesis by (auto simp: is_digit_def)
qed

lemma digit_char': "k < 10 \<Longrightarrow> is_digit (48 + of_nat k)"
  using digit_char [of k] by simp

lemma digits_nonempty: "digits n \<noteq> []"
  by (subst digits.simps) simp

lemma digits_all_digit: "\<forall>c\<in>set (digits n). is_digit c"
proof (induction n rule: digits.induct)
  case (1 n)
  show ?case
  proof (cases "n < 10")
    case True
    then show ?thesis by (subst digits.simps) (simp add: digit_char')
  next
    case False
    with 1 show ?thesis by (subst digits.simps) (simp add: digit_char')
  qed
qed

lemma toFixed4_format:
  "\<exists>a b. toFixed4 x = a @ str ''.'' @ b \<and> a \<noteq> [] \<and> length b = 4 \<and> (\<forall>c\<in>set b. is_digit c)"
proof -
  define m where "m = digits (nat \<lfloor>\<bar>x\<bar> * 10000 + 1 / 2\<rfloor>)"
  define m' where "m' = (if length m \<le> 4 then replicate (5 - length m) (0x30 :: 16 word) @ m else m)"
  have dm: "\<forall>c\<in>set m. is_digit c" unfolding m_def by (rule digits_all_digit)
  have dm': "\<forall>c\<in>set m'. is_digit c" using dm by (auto simp: m'_def is_digit_def)
  have len: "5 \<le> length m'" by (auto simp: m'_def)
  let ?s = "(if x < 0 then str ''-'' else [])"
  let ?a = "?s @ take (length m' - 4) m'"
  let ?b = "drop (length m' - 4) m'"
  have "toFixed4 x = ?a @ str ''.'' @ ?b"
    by (simp add: toFixed4_def Let_def m_def m'_def)
  moreover have "?a \<noteq> []" using len by auto
  moreover have "length ?b = 4" using len by simp
  moreover have "\<forall>c\<in>set ?b. is_digit c" using dm' by (meson in_set_dropD)
  ultimately show ?thesis by blast
qed

lemma toFixed4_example: "toFixed4 (341 / 10000) = str ''0.0341''"
proof -
  have a1: "\<bar>(341 / 10000 :: rat)\<bar> * 10000 + 1 / 2 = 683 / 2" by simp
  have a2: "\<lfloor>(683 / 2 :: rat)\<rfloor> = 341" by (simp add: floor_eq_iff)
  have n: "nat \<lfloor>\<bar>(341 / 10000 :: rat)\<bar> * 10000 + 1 / 2\<rfloor> = 341" by (simp only: a1 a2)
  have d: "digits 341 = str ''341''" by (simp add: digits.simps str_def)
  have neg: "\<not> (341 / 10000 :: rat) < 0" by simp
  show ?thesis
    unfolding toFixed4_def Let_def n d using neg by (simp add: str_def)
qed

lemma on_tool_use_no_stats:
  "on_tool_use i name input now s = Inr (out, s') \<Longrightarrow> filter is_stats_line out = []"
  by (auto simp: on_tool_use_def Let_def is_stats_line_def split: option.splits sum.splits if_splits)

lemma finishTicker_no_stats:
  "finishTicker i lbl now s = (out, s') \<Longrightarrow> filter is_stats_line out = []"
  by (auto simp: finishTicker_def Let_def is_stats_line_def split: option.splits)

lemma on_other_block_no_stats:
  "on_other_block content t now s = (out, s') \<Longrightarrow> filter is_stats_line out = []"
  by (auto simp: on_other_block_def Let_def is_stats_line_def 
      split: option.splits prod.splits dest!: finishTicker_no_stats)

lemma on_stream_event_no_stats:
  "on_stream_event event now s = Inr (out, s') \<Longrightarrow> filter is_stats_line out = []"
  by (auto simp: on_stream_event_def Let_def is_stats_line_def 
      split: option.splits prod.splits jsval.splits if_splits dest!: finishTicker_no_stats)

lemma on_blocks_no_stats:
  "on_blocks bs s = Inr (out, s') \<Longrightarrow> filter is_stats_line out = []"
proof (induction bs arbitrary: s out)
  case Nil
  then show ?case by simp
next
  case (Cons b bs)
  obtain blk now where b: "b = (blk, now)" by (cases b)
  from Cons.prems b obtain out1 s1 out2 where
    1: "on_block blk now s = Inr (out1, s1)" and 2: "on_blocks bs s1 = Inr (out2, s')"
    and out: "out = out1 @ out2"
    by (auto split: sum.splits)
  have "filter is_stats_line out1 = []"
    using 1 by (cases blk) (auto simp: is_stats_line_def dest: on_tool_use_no_stats on_other_block_no_stats)
  with Cons.IH [OF 2] out show ?case by simp
qed

lemma tick_no_stats: "filter is_stats_line (tick h now s) = []"
  by (simp add: tick_def is_stats_line_def)

lemma step_stats:
  "step ev s = Inr (out, s') \<Longrightarrow> filter is_stats_line out = stats_of ev"
proof (cases ev)
  case (Message m)
  assume "step ev s = Inr (out, s')"
  with Message show ?thesis
    by (cases m) (auto simp: stats_of_def is_stats_line_def dest: on_blocks_no_stats on_stream_event_no_stats)
next
  case (Tick h now)
  assume "step ev s = Inr (out, s')"
  with Tick show ?thesis by (auto simp: stats_of_def tick_no_stats)
qed

lemma steps_stats:
  "steps evs s = Inr (out, s') \<Longrightarrow> filter is_stats_line out = concat (map stats_of evs)"
proof (induction evs arbitrary: s out)
  case Nil
  then show ?case by simp
next
  case (Cons ev evs)
  from Cons.prems obtain out1 s1 out2 where
    1: "step ev s = Inr (out1, s1)" and 2: "steps evs s1 = Inr (out2, s')" and out: "out = out1 @ out2"
    by (auto split: sum.splits)
  from step_stats [OF 1] Cons.IH [OF 2] out show ?case by simp
qed

lemma cleanup_fold_no_out:
  "fold (\<lambda>i (out, s1). let (out2, s2) = finishTicker i JUndefined 0 s1 in (out @ out2, s2)) ids (out0, s)
    = (out', s') \<Longrightarrow> out' = out0"
proof (induction ids arbitrary: out0 s)
  case Nil
  then show ?case by simp
next
  case (Cons i ids)
  have "fst (finishTicker i JUndefined 0 s) = []"
    by (simp add: finishTicker_def truthy_def Let_def split: option.splits)
  then obtain s2 where "finishTicker i JUndefined 0 s = ([], s2)"
    by (cases "finishTicker i JUndefined 0 s") simp
  with Cons show ?case by simp
qed

lemma cleanup_no_out: "fst (cleanup s) = []"
  using cleanup_fold_no_out [of "map fst (toolRuns s)" "[]" s]
  by (cases "cleanup s") (simp add: cleanup_def)

lemma run_output:
  assumes "run evs = Inr (out, s')"
  shows "\<exists>out1 s1. steps evs init = Inr (out1, s1) \<and> out = out1 @ [Finished] \<and> s' = snd (cleanup s1)"
proof -
  from assms obtain out1 s1 where 1: "steps evs init = Inr (out1, s1)"
    by (auto simp: run_def split: sum.splits)
  obtain out2 s2 where 2: "cleanup s1 = (out2, s2)" by (cases "cleanup s1")
  with cleanup_no_out [of s1] have "out2 = []" by simp
  with assms 1 2 show ?thesis by (simp add: run_def)
qed

lemma run_stats:
  assumes "run evs = Inr (out, s')"
  shows "filter is_stats_line out = concat (map stats_of evs)"
proof -
  from run_output [OF assms] obtain out1 s1 where
    1: "steps evs init = Inr (out1, s1)" and out: "out = out1 @ [Finished]" by blast
  from steps_stats [OF 1] out show ?thesis by (simp add: is_stats_line_def)
qed

text \<open>
  C9, as amended. A \<open>result\<close> message prints two lines, the total duration in
  milliseconds and then the total cost, the cost written by \<open>toFixed(4)\<close> with four
  decimal digits; no other message, block or interval firing prints a statistics line, so
  a run prints one such pair for each \<open>result\<close> message, in order.
\<close>

theorem run_statistics_lines:
  "on_message (Result d c) s = Inr ([TotalDuration d, TotalCost c], s)
   \<and> render (TotalDuration d) = [0x0A, 0x23F1, 0xFE0F] @ str '' Total duration: '' @ num_to_string d @ str ''ms''
   \<and> render (TotalCost c) = [0xD83D, 0xDCB0] @ str '' Total cost: $'' @ toFixed4 c
   \<and> (\<exists>a b. toFixed4 c = a @ str ''.'' @ b \<and> a \<noteq> [] \<and> length b = 4 \<and> (\<forall>ch\<in>set b. is_digit ch))
   \<and> (run evs = Inr (out, s') \<longrightarrow> filter is_stats_line out = concat (map stats_of evs))"
  using toFixed4_format [of c] run_stats [of evs out s'] by simp

text \<open>
  The run statistics are two lines, not one: neither reports both values.
\<close>

theorem run_statistics_one_line_counterexample:
  "on_message (Result 1200 (341 / 10000)) init = Inr ([TotalDuration 1200, TotalCost (341 / 10000)], init)
   \<and> render (TotalDuration 1200) = [0x0A, 0x23F1, 0xFE0F] @ str '' Total duration: 1200ms''
   \<and> render (TotalCost (341 / 10000)) = [0xD83D, 0xDCB0] @ str '' Total cost: $0.0341''"
  by (simp add: toFixed4_example) (simp add: num_to_string_def digits.simps str_def)

theorem run_statistics_lines_witness:
  "run [Message (Result 1200 (341 / 10000))] = Inr ([TotalDuration 1200, TotalCost (341 / 10000), Finished], init)
   \<and> filter is_stats_line [TotalDuration 1200, TotalCost (341 / 10000), Finished]
       = [TotalDuration 1200, TotalCost (341 / 10000)]
   \<and> toFixed4 (341 / 10000) = str ''0.0341''"
proof -
  have r: "run [Message (Result 1200 (341 / 10000))]
      = Inr ([TotalDuration 1200, TotalCost (341 / 10000), Finished], init)"
    by (simp add: run_def cleanup_def init_def)
  from run_statistics_lines [of 1200 "341 / 10000" init "[Message (Result 1200 (341 / 10000))]"
      "[TotalDuration 1200, TotalCost (341 / 10000), Finished]" init] r
  have "filter is_stats_line [TotalDuration 1200, TotalCost (341 / 10000), Finished]
       = concat (map stats_of [Message (Result 1200 (341 / 10000))])" by blast
  then show ?thesis using r toFixed4_example by (simp add: stats_of_def)
qed


subsection \<open>Unknown and completed ids\<close>

lemma present_Some [simp]: "present x = Some j \<longleftrightarrow> x = Some j \<and> j \<noteq> []"
  by (auto simp: present_def split: option.splits)

lemma present_None [simp]: "present x = None \<longleftrightarrow> x = None \<or> x = Some []"
  by (auto simp: present_def split: option.splits)

lemma present_absent [simp]: "present None = None" "present (Some []) = None"
  by (simp_all add: present_def)

lemma present_nonempty [simp]: "i \<noteq> [] \<Longrightarrow> present (Some i) = Some i"
  by (simp add: present_def)

lemma finishTicker_unknown:
  "registry s i = None \<Longrightarrow> finishTicker i lbl now s = ([], s)"
  by (simp add: finishTicker_def registry_def)


lemma lookup_label_unknown:
  "registry s i = None \<Longrightarrow> lookup_label s i = JUndefined"
  by (simp add: lookup_label_def registry_def)



lemma finishTicker_registry:
  "finishTicker i lbl now s = (out, s') \<Longrightarrow> registry s' = (registry s)(i := None)"
  by (auto simp: finishTicker_def registry_def clearInterval_def Let_def delete_conv'
      split: option.splits)

lemma startTicker_registry_other:
  "j \<noteq> i \<Longrightarrow> registry (startTicker i lbl s) j = registry s j"
  by (simp add: startTicker_def registry_def setInterval_def update_conv' split: option.splits)

lemma on_tool_use_registry_other:
  assumes "on_tool_use id' name input now s = Inr (out, s')" "id' \<noteq> Some j"
  shows "registry s' j = registry s j"
  using assms
  by (auto simp: on_tool_use_def Let_def present_def startTicker_registry_other
      split: option.splits sum.splits if_splits)
     (auto simp: registry_def update_conv')

lemma on_other_block_registry:
  "on_other_block content t now s = (out, s') \<Longrightarrow> registry s' j = None \<or> registry s' j = registry s j"
  by (auto simp: on_other_block_def Let_def split: option.splits prod.splits dest!: finishTicker_registry)

lemma on_stream_event_registry:
  "on_stream_event event now s = Inr (out, s') \<Longrightarrow> registry s' j = None \<or> registry s' j = registry s j"
  by (auto simp: on_stream_event_def Let_def split: option.splits prod.splits jsval.splits if_splits
      dest!: finishTicker_registry)




lemma on_block_registry_keep:
  assumes "on_block b now s = Inr (out, s')" "i \<notin> block_dispatches b"
  shows "registry s' i = None \<or> registry s' i = registry s i"
proof (cases b)
  case (TextBlock t)
  with assms show ?thesis by simp
next
  case (ToolUse id' name input)
  with assms have "id' \<noteq> Some i" by (auto simp: block_dispatches_def)
  with assms ToolUse show ?thesis by (simp add: on_tool_use_registry_other)
next
  case (OtherBlock content t)
  with assms on_other_block_registry [of content t now s out s' i] show ?thesis by auto
qed

lemma on_blocks_registry_keep:
  assumes "on_blocks bs s = Inr (out, s')" "\<forall>b\<in>set bs. i \<notin> block_dispatches (fst b)"
  shows "registry s' i = None \<or> registry s' i = registry s i"
  using assms
proof (induction bs arbitrary: s out)
  case Nil
  then show ?case by simp
next
  case (Cons b bs)
  obtain blk now where b: "b = (blk, now)" by (cases b)
  from Cons.prems b obtain out1 s1 out2 where
    1: "on_block blk now s = Inr (out1, s1)" and 2: "on_blocks bs s1 = Inr (out2, s')"
    by (auto split: sum.splits)
  from Cons.prems b have "i \<notin> block_dispatches blk" by simp
  from on_block_registry_keep [OF 1 this]
  have "registry s1 i = None \<or> registry s1 i = registry s i" .
  moreover from Cons.IH [OF 2] Cons.prems
  have "registry s' i = None \<or> registry s' i = registry s1 i" by simp
  ultimately show ?case by auto
qed

lemma step_registry_keep:
  assumes "step ev s = Inr (out, s')" "i \<notin> dispatched ev"
  shows "registry s' i = None \<or> registry s' i = registry s i"
proof (cases ev)
  case (Tick h now)
  with assms show ?thesis by simp
next
  case (Message m)
  show ?thesis
  proof (cases m)
    case (Assistant bs)
    with assms Message on_blocks_registry_keep [of bs s out s' i] show ?thesis
      by (simp add: dispatched_def)
  next
    case (StreamEvent event now)
    with assms Message on_stream_event_registry [of event now s out s' i] show ?thesis by auto
  next
    case (Result d c)
    with assms Message show ?thesis by simp
  next
    case OtherMessage
    with assms Message show ?thesis by simp
  qed
qed

lemma steps_registry_keep:
  assumes "steps evs s = Inr (out, s')" "\<forall>ev\<in>set evs. i \<notin> dispatched ev"
  shows "registry s' i = None \<or> registry s' i = registry s i"
  using assms
proof (induction evs arbitrary: s out)
  case Nil
  then show ?case by simp
next
  case (Cons ev evs)
  from Cons.prems obtain out1 s1 out2 where
    1: "step ev s = Inr (out1, s1)" and 2: "steps evs s1 = Inr (out2, s')"
    by (auto split: sum.splits)
  from Cons.prems have "i \<notin> dispatched ev" by simp
  from step_registry_keep [OF 1 this]
  have "registry s1 i = None \<or> registry s1 i = registry s i" .
  moreover from Cons.IH [OF 2] Cons.prems
  have "registry s' i = None \<or> registry s' i = registry s1 i" by simp
  ultimately show ?case by auto
qed




lemmas eval_defs = on_tool_use_def get_prop_def truthy_def coalesce_def context_suffix_def
  startTicker_def setInterval_def init_def Let_def finishTicker_def clearInterval_def
  on_other_block_def label_or_fallback_def lookup_label_def present_def















subsection \<open>Dispatch and labels\<close>

lemma dispatch_label_not_nullish:
  "dispatch_label name input \<noteq> JUndefined \<and> dispatch_label name input \<noteq> JNull"
  by (auto simp: dispatch_label_def truthy_def)

lemma on_tool_use_subagent:
  assumes "i \<noteq> []" "truthy (get_prop input (str ''subagent_type''))"
    "context_suffix (dispatch_context input) = Inr suf"
  shows "on_tool_use (Some i) name input now s =
    Inr ([Delegating (get_prop input (str ''subagent_type'')) suf],
      s\<lparr>toolRuns := AList.update i
           \<lparr>label = get_prop input (str ''subagent_type''), start = now,
            ticker = Some (length (intervals s))\<rparr> (toolRuns s),
        intervals := intervals s @
           [\<lparr>ilabel = get_prop input (str ''subagent_type''), istart = now, cleared = False\<rparr>]\<rparr>)"
  using assms
  by (simp add: on_tool_use_def dispatch_context_def Let_def startTicker_def setInterval_def
      update_conv')

lemma on_tool_use_generic:
  assumes "i \<noteq> []" "\<not> truthy (get_prop input (str ''subagent_type''))"
  shows "on_tool_use (Some i) name input now s =
    Inr ([UsingTool name],
      s\<lparr>toolRuns := AList.update i \<lparr>label = JStr name, start = now, ticker = None\<rparr> (toolRuns s)\<rparr>)"
  using assms by (simp add: on_tool_use_def Let_def)

lemma on_tool_use_raises:
  "on_tool_use id' name input now s = Inl err \<longleftrightarrow>
     truthy (get_prop input (str ''subagent_type'')) \<and> present id' \<noteq> None
     \<and> context_suffix (dispatch_context input) = Inl err"
  by (auto simp: on_tool_use_def dispatch_context_def Let_def split: option.splits sum.splits)

lemma on_tool_use_registers:
  assumes "on_tool_use (Some i) name input now s = Inr (out, s')" "i \<noteq> []"
  shows "\<exists>e. registry s' i = Some e \<and> label e = dispatch_label name input \<and> start e = now"
proof (cases "truthy (get_prop input (str ''subagent_type''))")
  case True
  with assms on_tool_use_raises [of "Some i" name input now s]
  obtain suf where "context_suffix (dispatch_context input) = Inr suf"
    by (cases "context_suffix (dispatch_context input)") auto
  from on_tool_use_subagent [OF assms(2) True this, of name now s] assms(1) True
  show ?thesis by (auto simp: registry_def update_conv' dispatch_label_def)
next
  case False
  from on_tool_use_generic [OF assms(2) False, of name now s] assms(1) False
  show ?thesis by (auto simp: registry_def update_conv' dispatch_label_def)
qed

lemma on_other_block_registered:
  assumes "registry s i = Some e" "i \<noteq> []" "label e \<noteq> JUndefined" "label e \<noteq> JNull"
  shows "\<exists>s'. on_other_block content (Some i) now s =
     ((if extractText (coalesce content (JStr [])) \<noteq> []
       then [ResultLine (label e) (extractText (coalesce content (JStr [])))] else [])
      @ (if truthy (label e) then [Returned (label e) (elapsed_secs now (start e))] else []), s')
     \<and> registry s' i = None"
  using assms
  by (auto simp: on_other_block_def Let_def label_or_fallback_def lookup_label_def coalesce_def
      finishTicker_def registry_def delete_conv' clearInterval_def split: option.splits)

lemma on_stream_event_registered:
  assumes "registry s i = Some e" "i \<noteq> []" "label e \<noteq> JUndefined" "label e \<noteq> JNull"
    "event_tool_use_id event = Some i" "event_type event = str ''tool_result''"
    "event_progress event = JStr p"
  shows "\<exists>s'. on_stream_event event now s =
     Inr ((if trim p \<noteq> [] then [Update (label e) (trim p)] else [])
      @ (if truthy (label e) then [Returned (label e) (elapsed_secs now (start e))] else []), s')
     \<and> registry s' i = None"
  using assms
  by (auto simp: on_stream_event_def Let_def label_or_fallback_def lookup_label_def coalesce_def
      finishTicker_def registry_def delete_conv' clearInterval_def split: option.splits)

text \<open>
  C6. The label registered at dispatch is never changed by a later event. After a
  \<open>tool_use\<close> block registers an id, and whatever events follow that carry no new
  \<open>tool_use\<close> block for that id, the id is either removed or still registered with the
  label and start time of its dispatch; a completion for it, by a result block or a
  \<open>tool_result\<close> stream event, is reported under that label whatever its payload says.
\<close>

theorem label_fixed_at_dispatch:
  assumes "on_block (ToolUse (Some i) name input) t0 s = Inr (out0, s1)" "i \<noteq> []"
    "steps evs s1 = Inr (out1, s2)" "\<forall>ev\<in>set evs. i \<notin> dispatched ev"
  shows "registry s2 i = None \<or>
    (\<exists>e. registry s2 i = Some e \<and> label e = dispatch_label name input \<and> start e = t0
      \<and> (\<exists>s3. on_block (OtherBlock content (Some i)) t s2 =
           Inr ((if extractText (coalesce content (JStr [])) \<noteq> []
                 then [ResultLine (dispatch_label name input) (extractText (coalesce content (JStr [])))]
                 else [])
                @ (if truthy (dispatch_label name input)
                   then [Returned (dispatch_label name input) (elapsed_secs t t0)] else []), s3))
      \<and> (event_tool_use_id event = Some i \<and> event_type event = str ''tool_result''
           \<and> event_progress event = JStr p \<longrightarrow>
          (\<exists>s3. on_stream_event event t s2 =
            Inr ((if trim p \<noteq> [] then [Update (dispatch_label name input) (trim p)] else [])
                 @ (if truthy (dispatch_label name input)
                    then [Returned (dispatch_label name input) (elapsed_secs t t0)] else []), s3))))"
proof (cases "registry s2 i")
  case None
  then show ?thesis by simp
next
  case (Some e)
  from assms(1) have "on_tool_use (Some i) name input t0 s = Inr (out0, s1)" by simp
  from on_tool_use_registers [OF this assms(2)] obtain e0 where
    e0: "registry s1 i = Some e0" "label e0 = dispatch_label name input" "start e0 = t0" by blast
  from steps_registry_keep [OF assms(3,4)] Some e0 have e: "e = e0" by auto
  have nn: "label e \<noteq> JUndefined" "label e \<noteq> JNull"
    using e e0 dispatch_label_not_nullish [of name input] by auto
  from on_other_block_registered [OF Some assms(2) nn, of content t] e e0
  have a: "\<exists>s3. on_block (OtherBlock content (Some i)) t s2 =
           Inr ((if extractText (coalesce content (JStr [])) \<noteq> []
                 then [ResultLine (dispatch_label name input) (extractText (coalesce content (JStr [])))]
                 else [])
                @ (if truthy (dispatch_label name input)
                   then [Returned (dispatch_label name input) (elapsed_secs t t0)] else []), s3)"
    by auto
  have b: "\<exists>s3. on_stream_event event t s2 =
            Inr ((if trim p \<noteq> [] then [Update (dispatch_label name input) (trim p)] else [])
                 @ (if truthy (dispatch_label name input)
                    then [Returned (dispatch_label name input) (elapsed_secs t t0)] else []), s3)"
    if "event_tool_use_id event = Some i" "event_type event = str ''tool_result''"
       "event_progress event = JStr p"
    using on_stream_event_registered [OF Some assms(2) nn that, of t] e e0 by auto
  from Some e e0 a b show ?thesis by auto
qed


lemma dispatch_researcher:
  "on_block (ToolUse (Some (str ''t1'')) (str ''Task'')
       (JObj [(str ''subagent_type'', JStr (str ''researcher''))])) 0 init
   = Inr ([Delegating (JStr (str ''researcher'')) []],
       \<lparr>toolRuns = [(str ''t1'', \<lparr>label = JStr (str ''researcher''), start = 0, ticker = Some 0\<rparr>)],
        intervals = [\<lparr>ilabel = JStr (str ''researcher''), istart = 0, cleared = False\<rparr>],
        cancelled = 0\<rparr>)"
  by (simp add: eval_defs)

lemma tick_researcher:
  "steps [Tick 0 5000]
       \<lparr>toolRuns = [(str ''t1'', \<lparr>label = JStr (str ''researcher''), start = 0, ticker = Some 0\<rparr>)],
        intervals = [\<lparr>ilabel = JStr (str ''researcher''), istart = 0, cleared = False\<rparr>],
        cancelled = 0\<rparr>
   = Inr ([StillWorking (JStr (str ''researcher'')) 5],
       \<lparr>toolRuns = [(str ''t1'', \<lparr>label = JStr (str ''researcher''), start = 0, ticker = Some 0\<rparr>)],
        intervals = [\<lparr>ilabel = JStr (str ''researcher''), istart = 0, cleared = False\<rparr>],
        cancelled = 0\<rparr>)"
  by (simp add: tick_def elapsed_secs_def)

lemma done_event:
  "event_tool_use_id [(str ''type'', JStr (str ''tool_result'')), (str ''tool_use_id'', JStr (str ''t1'')),
       (str ''delta'', JObj [(str ''text'', JStr (str ''done'')), (str ''subagent_type'', JStr (str ''coder''))])]
     = Some (str ''t1'')"
  "event_progress [(str ''type'', JStr (str ''tool_result'')), (str ''tool_use_id'', JStr (str ''t1'')),
       (str ''delta'', JObj [(str ''text'', JStr (str ''done'')), (str ''subagent_type'', JStr (str ''coder''))])]
     = JStr (str ''done'')"
  "event_type [(str ''type'', JStr (str ''tool_result'')), (str ''tool_use_id'', JStr (str ''t1'')),
       (str ''delta'', JObj [(str ''text'', JStr (str ''done'')), (str ''subagent_type'', JStr (str ''coder''))])]
     = str ''tool_result''"
  by (simp_all add: event_tool_use_id_def event_progress_def delta_progress_def
      event_type_def get_prop_def truthy_def)

lemma trim_done: "trim (str ''done'') = str ''done''"
  by (simp add: trim_def str_def is_ws_def)

theorem label_fixed_at_dispatch_witness:
  "on_block (ToolUse (Some (str ''t1'')) (str ''Task'')
       (JObj [(str ''subagent_type'', JStr (str ''researcher''))])) 0 init
   = Inr ([Delegating (JStr (str ''researcher'')) []],
       \<lparr>toolRuns = [(str ''t1'', \<lparr>label = JStr (str ''researcher''), start = 0, ticker = Some 0\<rparr>)],
        intervals = [\<lparr>ilabel = JStr (str ''researcher''), istart = 0, cleared = False\<rparr>],
        cancelled = 0\<rparr>)
   \<and> steps [Tick 0 5000]
       \<lparr>toolRuns = [(str ''t1'', \<lparr>label = JStr (str ''researcher''), start = 0, ticker = Some 0\<rparr>)],
        intervals = [\<lparr>ilabel = JStr (str ''researcher''), istart = 0, cleared = False\<rparr>],
        cancelled = 0\<rparr>
   = Inr ([StillWorking (JStr (str ''researcher'')) 5],
       \<lparr>toolRuns = [(str ''t1'', \<lparr>label = JStr (str ''researcher''), start = 0, ticker = Some 0\<rparr>)],
        intervals = [\<lparr>ilabel = JStr (str ''researcher''), istart = 0, cleared = False\<rparr>],
        cancelled = 0\<rparr>)
   \<and> (\<exists>s3. on_block (OtherBlock
          (JObj [(str ''text'', JStr (str ''done'')), (str ''subagent_type'', JStr (str ''coder''))])
          (Some (str ''t1''))) 7600
       \<lparr>toolRuns = [(str ''t1'', \<lparr>label = JStr (str ''researcher''), start = 0, ticker = Some 0\<rparr>)],
        intervals = [\<lparr>ilabel = JStr (str ''researcher''), istart = 0, cleared = False\<rparr>],
        cancelled = 0\<rparr>
     = Inr ([ResultLine (JStr (str ''researcher'')) (str ''done''),
             Returned (JStr (str ''researcher'')) 8], s3))
   \<and> (\<exists>s3. on_stream_event
         [(str ''type'', JStr (str ''tool_result'')), (str ''tool_use_id'', JStr (str ''t1'')),
          (str ''delta'', JObj [(str ''text'', JStr (str ''done'')), (str ''subagent_type'', JStr (str ''coder''))])]
         7600
       \<lparr>toolRuns = [(str ''t1'', \<lparr>label = JStr (str ''researcher''), start = 0, ticker = Some 0\<rparr>)],
        intervals = [\<lparr>ilabel = JStr (str ''researcher''), istart = 0, cleared = False\<rparr>],
        cancelled = 0\<rparr>
       = Inr ([Update (JStr (str ''researcher'')) (str ''done''),
               Returned (JStr (str ''researcher'')) 8], s3))"
proof -
  have ne: "str ''t1'' \<noteq> []" by simp
  have nd: "\<forall>ev\<in>set [Tick 0 5000]. str ''t1'' \<notin> dispatched ev"
    by (simp add: dispatched_def)
  have reg: "registry
       \<lparr>toolRuns = [(str ''t1'', \<lparr>label = JStr (str ''researcher''), start = 0, ticker = Some 0\<rparr>)],
        intervals = [\<lparr>ilabel = JStr (str ''researcher''), istart = 0, cleared = False\<rparr>],
        cancelled = 0\<rparr> (str ''t1'') \<noteq> None"
    by (simp add: registry_def)
  have lbl: "dispatch_label (str ''Task'') (JObj [(str ''subagent_type'', JStr (str ''researcher''))])
      = JStr (str ''researcher'')"
    by (simp add: dispatch_label_def get_prop_def truthy_def)
  have tr: "truthy (JStr (str ''researcher''))" by (simp add: truthy_def)
  have ex: "extractText (coalesce
      (JObj [(str ''text'', JStr (str ''done'')), (str ''subagent_type'', JStr (str ''coder''))])
      (JStr [])) = str ''done''"
    by (simp add: coalesce_def extractText_def truthy_def typeof_object_def has_prop_def get_prop_def)
       (simp add: trim_def str_def is_ws_def)
  have el: "elapsed_secs 7600 0 = 8" by (simp add: elapsed_secs_def)
  from label_fixed_at_dispatch [OF dispatch_researcher ne tick_researcher nd,
      of "JObj [(str ''text'', JStr (str ''done'')), (str ''subagent_type'', JStr (str ''coder''))]" 7600]
    reg
  have c: "\<exists>s3. on_block (OtherBlock
          (JObj [(str ''text'', JStr (str ''done'')), (str ''subagent_type'', JStr (str ''coder''))])
          (Some (str ''t1''))) 7600
       \<lparr>toolRuns = [(str ''t1'', \<lparr>label = JStr (str ''researcher''), start = 0, ticker = Some 0\<rparr>)],
        intervals = [\<lparr>ilabel = JStr (str ''researcher''), istart = 0, cleared = False\<rparr>],
        cancelled = 0\<rparr>
     = Inr ([ResultLine (JStr (str ''researcher'')) (str ''done''),
             Returned (JStr (str ''researcher'')) 8], s3)"
    unfolding lbl ex el using tr by auto
  from label_fixed_at_dispatch [OF dispatch_researcher ne tick_researcher nd,
      of _ 7600
      "[(str ''type'', JStr (str ''tool_result'')), (str ''tool_use_id'', JStr (str ''t1'')),
        (str ''delta'', JObj [(str ''text'', JStr (str ''done'')), (str ''subagent_type'', JStr (str ''coder''))])]"
      "str ''done''"]
    reg done_event
  have d: "\<exists>s3. on_stream_event
         [(str ''type'', JStr (str ''tool_result'')), (str ''tool_use_id'', JStr (str ''t1'')),
          (str ''delta'', JObj [(str ''text'', JStr (str ''done'')), (str ''subagent_type'', JStr (str ''coder''))])]
         7600
       \<lparr>toolRuns = [(str ''t1'', \<lparr>label = JStr (str ''researcher''), start = 0, ticker = Some 0\<rparr>)],
        intervals = [\<lparr>ilabel = JStr (str ''researcher''), istart = 0, cleared = False\<rparr>],
        cancelled = 0\<rparr>
       = Inr ([Update (JStr (str ''researcher'')) (str ''done''),
               Returned (JStr (str ''researcher'')) 8], s3)"
    unfolding lbl el using tr by (auto simp: trim_done)
  from dispatch_researcher tick_researcher c d show ?thesis by (intro conjI)
qed












subsection \<open>Exceptions\<close>




lemma on_stream_event_raises:
  "on_stream_event event now s = Inl err \<longleftrightarrow>
     prefix (str ''tool_result'') (event_type event) \<and> (\<forall>p. event_progress event \<noteq> JStr p)"
  by (cases err) (auto simp: on_stream_event_def Let_def split: option.splits prod.splits jsval.splits)












subsection \<open>The state invariant\<close>

lemma wf_init: "wf_state init"
  by (simp add: wf_state_def registry_def init_def)

lemma wf_stateI:
  assumes "\<And>i e. registry s i = Some e \<Longrightarrow> i \<noteq> [] \<and> label e \<noteq> JUndefined \<and> label e \<noteq> JNull"
    "\<And>i e h. registry s i = Some e \<Longrightarrow> ticker e = Some h \<Longrightarrow>
           h < length (intervals s) \<and> \<not> cleared (intervals s ! h)
           \<and> istart (intervals s ! h) = start e \<and> ilabel (intervals s ! h) = label e
           \<and> truthy (label e)"
    "\<And>i j e e' h. registry s i = Some e \<Longrightarrow> registry s j = Some e'
           \<Longrightarrow> ticker e = Some h \<Longrightarrow> ticker e' = Some h \<Longrightarrow> i = j"
  shows "wf_state s"
  using assms unfolding wf_state_def by blast

lemma wf_label:
  "wf_state s \<Longrightarrow> registry s i = Some e \<Longrightarrow> i \<noteq> [] \<and> label e \<noteq> JUndefined \<and> label e \<noteq> JNull"
  unfolding wf_state_def by blast

lemma wf_ticker:
  "wf_state s \<Longrightarrow> registry s i = Some e \<Longrightarrow> ticker e = Some h \<Longrightarrow>
     h < length (intervals s) \<and> \<not> cleared (intervals s ! h)
     \<and> istart (intervals s ! h) = start e \<and> ilabel (intervals s ! h) = label e
     \<and> truthy (label e)"
  unfolding wf_state_def by blast

lemma wf_distinct:
  "wf_state s \<Longrightarrow> registry s i = Some e \<Longrightarrow> registry s j = Some e'
     \<Longrightarrow> ticker e = Some h \<Longrightarrow> ticker e' = Some h \<Longrightarrow> i = j"
  unfolding wf_state_def by blast

lemma finishTicker_effect:
  assumes "registry s i = Some e"
  shows "finishTicker i lbl now s =
    ((if truthy lbl then [Returned lbl (elapsed_secs now (start e))] else []),
     (case ticker e of Some h \<Rightarrow> clearInterval h s | None \<Rightarrow> s)
       \<lparr>toolRuns := AList.delete i (toolRuns s)\<rparr>)"
  using assms
  by (auto simp: finishTicker_def registry_def Let_def clearInterval_def split: option.splits)

lemma finishTicker_wf:
  assumes wf: "wf_state s" and f: "finishTicker i lbl now s = (out, s')"
  shows "wf_state s'"
proof (cases "registry s i")
  case None
  with f finishTicker_unknown [of s i lbl now] wf show ?thesis by simp
next
  case (Some e)
  then have reg: "registry s i = Some e" .
  have r: "registry s' = (registry s)(i := None)"
    using finishTicker_registry [OF f] .
  show ?thesis
  proof (cases "ticker e")
    case None
    with f finishTicker_effect [OF reg, of lbl now]
    have iv: "intervals s' = intervals s" by auto
    show ?thesis
    proof (rule wf_stateI)
      fix j e' assume "registry s' j = Some e'"
      then show "j \<noteq> [] \<and> label e' \<noteq> JUndefined \<and> label e' \<noteq> JNull"
        using wf_label [OF wf, of j e'] r by (auto split: if_splits)
    next
      fix j e' h assume "registry s' j = Some e'" "ticker e' = Some h"
      then show "h < length (intervals s') \<and> \<not> cleared (intervals s' ! h)
           \<and> istart (intervals s' ! h) = start e' \<and> ilabel (intervals s' ! h) = label e'
           \<and> truthy (label e')"
        using wf_ticker [OF wf, of j e' h] r iv by (auto split: if_splits)
    next
      fix j k e1 e2 h
      assume "registry s' j = Some e1" "registry s' k = Some e2" "ticker e1 = Some h" "ticker e2 = Some h"
      then show "j = k"
        using wf_distinct [OF wf, of j e1 k e2 h] r by (auto split: if_splits)
    qed
  next
    case (Some h0)
    from wf_ticker [OF wf reg Some] have h0: "h0 < length (intervals s)" by simp
    from f finishTicker_effect [OF reg, of lbl now] Some h0
    have iv: "intervals s' = (intervals s)[h0 := (intervals s ! h0)\<lparr>cleared := True\<rparr>]"
      by (auto simp: clearInterval_def)
    show ?thesis
    proof (rule wf_stateI)
      fix j e' assume "registry s' j = Some e'"
      then show "j \<noteq> [] \<and> label e' \<noteq> JUndefined \<and> label e' \<noteq> JNull"
        using wf_label [OF wf, of j e'] r by (auto split: if_splits)
    next
      fix j e' h assume a: "registry s' j = Some e'" "ticker e' = Some h"
      then have j: "j \<noteq> i" "registry s j = Some e'" using r by (auto split: if_splits)
      with wf_distinct [OF wf reg j(2) Some] a(2) have "h \<noteq> h0" by auto
      then show "h < length (intervals s') \<and> \<not> cleared (intervals s' ! h)
           \<and> istart (intervals s' ! h) = start e' \<and> ilabel (intervals s' ! h) = label e'
           \<and> truthy (label e')"
        using wf_ticker [OF wf j(2) a(2)] iv by simp
    next
      fix j k e1 e2 h
      assume "registry s' j = Some e1" "registry s' k = Some e2" "ticker e1 = Some h" "ticker e2 = Some h"
      then show "j = k"
        using wf_distinct [OF wf, of j e1 k e2 h] r by (auto split: if_splits)
    qed
  qed
qed

lemma on_tool_use_wf:
  assumes wf: "wf_state s" and f: "on_tool_use id' name input now s = Inr (out, s')"
  shows "wf_state s'"
proof (cases "present id'")
  case None
  with f have "s' = s" by (auto simp: on_tool_use_def Let_def split: if_splits)
  with wf show ?thesis by simp
next
  case (Some i)
  then have id': "id' = Some i" and i: "i \<noteq> []" by simp_all
  show ?thesis
  proof (cases "truthy (get_prop input (str ''subagent_type''))")
    case False
    from f on_tool_use_generic [OF i False, of name now s] id'
    have s': "s' = s\<lparr>toolRuns := AList.update i \<lparr>label = JStr name, start = now, ticker = None\<rparr> (toolRuns s)\<rparr>"
      by simp
    then have r: "registry s' = (registry s)(i \<mapsto> \<lparr>label = JStr name, start = now, ticker = None\<rparr>)"
      and iv: "intervals s' = intervals s"
      by (simp_all add: registry_def update_conv')
    show ?thesis
    proof (rule wf_stateI)
      fix j e' assume "registry s' j = Some e'"
      then show "j \<noteq> [] \<and> label e' \<noteq> JUndefined \<and> label e' \<noteq> JNull"
        using wf_label [OF wf, of j e'] r i by (auto split: if_splits)
    next
      fix j e' h assume "registry s' j = Some e'" "ticker e' = Some h"
      then show "h < length (intervals s') \<and> \<not> cleared (intervals s' ! h)
           \<and> istart (intervals s' ! h) = start e' \<and> ilabel (intervals s' ! h) = label e'
           \<and> truthy (label e')"
        using wf_ticker [OF wf, of j e' h] r iv by (auto split: if_splits)
    next
      fix j k e1 e2 h
      assume "registry s' j = Some e1" "registry s' k = Some e2" "ticker e1 = Some h" "ticker e2 = Some h"
      then show "j = k"
        using wf_distinct [OF wf, of j e1 k e2 h] r by (auto split: if_splits)
    qed
  next
    case True
    let ?st = "get_prop input (str ''subagent_type'')"
    from f id' True i on_tool_use_raises [of id' name input now s]
    obtain suf where "context_suffix (dispatch_context input) = Inr suf"
      by (cases "context_suffix (dispatch_context input)") auto
    from on_tool_use_subagent [OF i True this, of name now s] f id'
    have s': "s' = s\<lparr>toolRuns := AList.update i
           \<lparr>label = ?st, start = now, ticker = Some (length (intervals s))\<rparr> (toolRuns s),
        intervals := intervals s @ [\<lparr>ilabel = ?st, istart = now, cleared = False\<rparr>]\<rparr>"
      by simp
    then have r: "registry s' = (registry s)(i \<mapsto>
           \<lparr>label = ?st, start = now, ticker = Some (length (intervals s))\<rparr>)"
      and iv: "intervals s' = intervals s @ [\<lparr>ilabel = ?st, istart = now, cleared = False\<rparr>]"
      by (simp_all add: registry_def update_conv')
    have nn: "?st \<noteq> JUndefined \<and> ?st \<noteq> JNull" using True by (auto simp: truthy_def)
    show ?thesis
    proof (rule wf_stateI)
      fix j e' assume "registry s' j = Some e'"
      then show "j \<noteq> [] \<and> label e' \<noteq> JUndefined \<and> label e' \<noteq> JNull"
        using wf_label [OF wf, of j e'] r i nn by (auto split: if_splits)
    next
      fix j e' h assume "registry s' j = Some e'" "ticker e' = Some h"
      then show "h < length (intervals s') \<and> \<not> cleared (intervals s' ! h)
           \<and> istart (intervals s' ! h) = start e' \<and> ilabel (intervals s' ! h) = label e'
           \<and> truthy (label e')"
        using wf_ticker [OF wf, of j e' h] r iv True by (auto split: if_splits simp: nth_append)
    next
      fix j k e1 e2 h
      assume "registry s' j = Some e1" "registry s' k = Some e2" "ticker e1 = Some h" "ticker e2 = Some h"
      then show "j = k"
        using wf_distinct [OF wf, of j e1 k e2 h] wf_ticker [OF wf, of j e1 h]
          wf_ticker [OF wf, of k e2 h] r
        by (auto split: if_splits)
    qed
  qed
qed

lemma on_other_block_wf:
  assumes "wf_state s" "on_other_block content t now s = (out, s')"
  shows "wf_state s'"
  using assms
  by (auto simp: on_other_block_def Let_def split: option.splits prod.splits dest: finishTicker_wf)

lemma on_stream_event_wf:
  assumes "wf_state s" "on_stream_event event now s = Inr (out, s')"
  shows "wf_state s'"
  using assms
  by (auto simp: on_stream_event_def Let_def split: option.splits prod.splits jsval.splits if_splits
      dest: finishTicker_wf)

lemma on_blocks_wf:
  assumes "wf_state s" "on_blocks bs s = Inr (out, s')"
  shows "wf_state s'"
  using assms
proof (induction bs arbitrary: s out)
  case Nil
  then show ?case by simp
next
  case (Cons b bs)
  obtain blk now where b: "b = (blk, now)" by (cases b)
  from Cons.prems b obtain out1 s1 out2 where
    1: "on_block blk now s = Inr (out1, s1)" and 2: "on_blocks bs s1 = Inr (out2, s')"
    by (auto split: sum.splits)
  have "wf_state s1"
    using 1 Cons.prems(1) by (cases blk) (auto dest: on_tool_use_wf on_other_block_wf)
  from Cons.IH [OF this 2] show ?case .
qed

lemma step_wf:
  assumes "wf_state s" "step ev s = Inr (out, s')"
  shows "wf_state s'"
proof (cases ev)
  case (Tick h now)
  with assms show ?thesis by simp
next
  case (Message m)
  with assms show ?thesis
    by (cases m) (auto dest: on_blocks_wf on_stream_event_wf)
qed

lemma steps_wf:
  assumes "wf_state s" "steps evs s = Inr (out, s')"
  shows "wf_state s'"
  using assms
proof (induction evs arbitrary: s out)
  case Nil
  then show ?case by simp
next
  case (Cons ev evs)
  from Cons.prems obtain out1 s1 out2 where
    1: "step ev s = Inr (out1, s1)" and 2: "steps evs s1 = Inr (out2, s')"
    by (auto split: sum.splits)
  from Cons.IH [OF step_wf [OF Cons.prems(1) 1] 2] show ?case .
qed



subsection \<open>Elapsed time\<close>





subsection \<open>Timers at the end of the run\<close>

lemma tight_init: "tight init"
  by (simp add: tight_def init_def)

lemma filter_cleared_update:
  "h < length xs \<Longrightarrow> \<not> cleared (xs ! h) \<Longrightarrow>
     length (filter cleared (xs[h := (xs ! h)\<lparr>cleared := True\<rparr>])) = Suc (length (filter cleared xs))"
proof (induction xs arbitrary: h)
  case Nil
  then show ?case by simp
next
  case (Cons x xs)
  then show ?case by (cases h) auto
qed

lemma finishTicker_tight:
  assumes wf: "wf_state s" and t: "tight s" and f: "finishTicker i lbl now s = (out, s')"
  shows "tight s'"
proof (cases "registry s i")
  case None
  with f finishTicker_unknown [of s i lbl now] t show ?thesis by simp
next
  case (Some e)
  then have reg: "registry s i = Some e" .
  have r: "registry s' = (registry s)(i := None)"
    using finishTicker_registry [OF f] .
  show ?thesis
  proof (cases "ticker e")
    case None
    with f finishTicker_effect [OF reg, of lbl now]
    have iv: "intervals s' = intervals s" and c: "cancelled s' = cancelled s" by auto
    have "cleared (intervals s ! h) \<or> (\<exists>j e'. registry s' j = Some e' \<and> ticker e' = Some h)"
      if "h < length (intervals s)" for h
    proof (cases "cleared (intervals s ! h)")
      case True
      then show ?thesis by simp
    next
      case False
      with t that obtain j e' where j: "registry s j = Some e'" "ticker e' = Some h"
        unfolding tight_def by blast
      with reg None have "j \<noteq> i" by auto
      with j r show ?thesis by auto
    qed
    with t iv c show ?thesis unfolding tight_def by simp
  next
    case (Some h0)
    from wf_ticker [OF wf reg Some]
    have h0: "h0 < length (intervals s)" "\<not> cleared (intervals s ! h0)" by simp_all
    from f finishTicker_effect [OF reg, of lbl now] Some h0
    have iv: "intervals s' = (intervals s)[h0 := (intervals s ! h0)\<lparr>cleared := True\<rparr>]"
      and c: "cancelled s' = cancelled s + 1"
      by (auto simp: clearInterval_def)
    have "cleared (intervals s' ! h) \<or> (\<exists>j e'. registry s' j = Some e' \<and> ticker e' = Some h)"
      if "h < length (intervals s)" for h
    proof (cases "h = h0")
      case True
      with iv h0 show ?thesis by simp
    next
      case False
      show ?thesis
      proof (cases "cleared (intervals s ! h)")
        case True
        with iv False show ?thesis by simp
      next
        case nc: False
        with t that obtain j e' where j: "registry s j = Some e'" "ticker e' = Some h"
          unfolding tight_def by blast
        with reg Some False have "j \<noteq> i" by auto
        with j r show ?thesis by auto
      qed
    qed
    moreover have "cancelled s' = length (filter cleared (intervals s'))"
      using t c iv filter_cleared_update [OF h0] unfolding tight_def by simp
    ultimately show ?thesis unfolding tight_def using iv by simp
  qed
qed

lemma on_tool_use_tight:
  assumes wf: "wf_state s" and t: "tight s"
    and f: "on_tool_use id' name input now s = Inr (out, s')"
    and fr: "fresh_block (ToolUse id' name input) s"
  shows "tight s'"
proof (cases "present id'")
  case None
  with f have "s' = s" by (auto simp: on_tool_use_def Let_def split: if_splits)
  with t show ?thesis by simp
next
  case (Some i)
  then have id': "id' = Some i" and i: "i \<noteq> []" by simp_all
  from fr Some have free: "registry s i = None" by simp
  show ?thesis
  proof (cases "truthy (get_prop input (str ''subagent_type''))")
    case False
    from f on_tool_use_generic [OF i False, of name now s] id'
    have s': "s' = s\<lparr>toolRuns := AList.update i \<lparr>label = JStr name, start = now, ticker = None\<rparr> (toolRuns s)\<rparr>"
      by simp
    then have r: "registry s' = (registry s)(i \<mapsto> \<lparr>label = JStr name, start = now, ticker = None\<rparr>)"
      and iv: "intervals s' = intervals s" and c: "cancelled s' = cancelled s"
      by (simp_all add: registry_def update_conv')
    have "cleared (intervals s ! h) \<or> (\<exists>j e'. registry s' j = Some e' \<and> ticker e' = Some h)"
      if "h < length (intervals s)" for h
    proof (cases "cleared (intervals s ! h)")
      case True
      then show ?thesis by simp
    next
      case nc: False
      with t that obtain j e' where j: "registry s j = Some e'" "ticker e' = Some h"
        unfolding tight_def by blast
      with free have "j \<noteq> i" by auto
      with j r show ?thesis by auto
    qed
    with t iv c show ?thesis unfolding tight_def by simp
  next
    case True
    let ?st = "get_prop input (str ''subagent_type'')"
    from f id' True i on_tool_use_raises [of id' name input now s]
    obtain suf where "context_suffix (dispatch_context input) = Inr suf"
      by (cases "context_suffix (dispatch_context input)") auto
    from on_tool_use_subagent [OF i True this, of name now s] f id'
    have s': "s' = s\<lparr>toolRuns := AList.update i
           \<lparr>label = ?st, start = now, ticker = Some (length (intervals s))\<rparr> (toolRuns s),
        intervals := intervals s @ [\<lparr>ilabel = ?st, istart = now, cleared = False\<rparr>]\<rparr>"
      by simp
    then have r: "registry s' = (registry s)(i \<mapsto>
           \<lparr>label = ?st, start = now, ticker = Some (length (intervals s))\<rparr>)"
      and iv: "intervals s' = intervals s @ [\<lparr>ilabel = ?st, istart = now, cleared = False\<rparr>]"
      and c: "cancelled s' = cancelled s"
      by (simp_all add: registry_def update_conv')
    have "cleared (intervals s' ! h) \<or> (\<exists>j e'. registry s' j = Some e' \<and> ticker e' = Some h)"
      if "h < length (intervals s')" for h
    proof (cases "h < length (intervals s)")
      case False
      with that iv have "h = length (intervals s)" by simp
      with r show ?thesis by auto
    next
      case lt: True
      show ?thesis
      proof (cases "cleared (intervals s ! h)")
        case True
        with iv lt show ?thesis by (simp add: nth_append)
      next
        case nc: False
        with t lt obtain j e' where j: "registry s j = Some e'" "ticker e' = Some h"
          unfolding tight_def by blast
        with free have "j \<noteq> i" by auto
        with j r show ?thesis by auto
      qed
    qed
    moreover have "cancelled s' = length (filter cleared (intervals s'))"
      using t c iv unfolding tight_def by simp
    ultimately show ?thesis unfolding tight_def by simp
  qed
qed

lemma on_other_block_tight:
  assumes "wf_state s" "tight s" "on_other_block content t now s = (out, s')"
  shows "tight s'"
  using assms
  by (auto simp: on_other_block_def Let_def split: option.splits prod.splits dest: finishTicker_tight)

lemma on_stream_event_tight:
  assumes "wf_state s" "tight s" "on_stream_event event now s = Inr (out, s')"
  shows "tight s'"
  using assms
  by (auto simp: on_stream_event_def Let_def split: option.splits prod.splits jsval.splits if_splits
      dest: finishTicker_tight)

lemma on_block_tight:
  assumes "wf_state s" "tight s" "on_block b now s = Inr (out, s')" "fresh_block b s"
  shows "tight s'"
  using assms
  by (cases b) (auto dest: on_tool_use_tight on_other_block_tight)

lemma on_block_wf:
  assumes "wf_state s" "on_block b now s = Inr (out, s')"
  shows "wf_state s'"
  using assms
  by (cases b) (auto dest: on_tool_use_wf on_other_block_wf)

lemma on_blocks_tight:
  assumes "wf_state s" "tight s" "on_blocks bs s = Inr (out, s')" "fresh_blocks bs s"
  shows "tight s'"
  using assms
proof (induction bs arbitrary: s out)
  case Nil
  then show ?case by simp
next
  case (Cons b bs)
  obtain blk now where b: "b = (blk, now)" by (cases b)
  from Cons.prems b obtain out1 s1 out2 where
    1: "on_block blk now s = Inr (out1, s1)" and 2: "on_blocks bs s1 = Inr (out2, s')"
    by (auto split: sum.splits)
  from Cons.prems(4) b 1 have fr: "fresh_block blk s" "fresh_blocks bs s1" by simp_all
  from on_block_tight [OF Cons.prems(1,2) 1 fr(1)] have t1: "tight s1" .
  from on_block_wf [OF Cons.prems(1) 1] have w1: "wf_state s1" .
  from Cons.IH [OF w1 t1 2 fr(2)] show ?case .
qed

lemma step_tight:
  assumes "wf_state s" "tight s" "step ev s = Inr (out, s')" "fresh_step ev s"
  shows "tight s'"
proof (cases ev)
  case (Tick h now)
  with assms show ?thesis by simp
next
  case (Message m)
  with assms show ?thesis
    by (cases m) (auto dest: on_blocks_tight on_stream_event_tight)
qed

lemma steps_tight:
  assumes "wf_state s" "tight s" "steps evs s = Inr (out, s')" "fresh_steps evs s"
  shows "tight s'"
  using assms
proof (induction evs arbitrary: s out)
  case Nil
  then show ?case by simp
next
  case (Cons ev evs)
  from Cons.prems obtain out1 s1 out2 where
    1: "step ev s = Inr (out1, s1)" and 2: "steps evs s1 = Inr (out2, s')"
    by (auto split: sum.splits)
  from Cons.prems(4) 1 have fr: "fresh_step ev s" "fresh_steps evs s1" by simp_all
  from step_tight [OF Cons.prems(1,2) 1 fr(1)] have t1: "tight s1" .
  from step_wf [OF Cons.prems(1) 1] have w1: "wf_state s1" .
  from Cons.IH [OF w1 t1 2 fr(2)] show ?case .
qed


lemma finishTicker_keys:
  assumes "finishTicker i lbl now s = (out, s')"
  shows "map fst (toolRuns s') = removeAll i (map fst (toolRuns s))"
proof (cases "registry s i")
  case None
  then have "i \<notin> set (map fst (toolRuns s))"
    by (simp add: registry_def map_of_eq_None_iff)
  with assms finishTicker_unknown [OF None, of lbl now] show ?thesis by simp
next
  case (Some e)
  from assms finishTicker_effect [OF Some, of lbl now]
  have "toolRuns s' = AList.delete i (toolRuns s)"
    by (auto simp: clearInterval_def split: option.splits)
  then show ?thesis by (simp add: delete_keys)
qed

lemma cleanup_fold:
  assumes "fold (\<lambda>i (out, s1). let (out2, s2) = finishTicker i JUndefined 0 s1 in (out @ out2, s2))
      ks (out0, s) = (out', s')"
  shows "map fst (toolRuns s') = filter (\<lambda>k. k \<notin> set ks) (map fst (toolRuns s))
    \<and> (wf_state s \<and> tight s \<longrightarrow> wf_state s' \<and> tight s')"
  using assms
proof (induction ks arbitrary: out0 s)
  case Nil
  then show ?case by simp
next
  case (Cons i ks)
  obtain out2 s2 where f: "finishTicker i JUndefined 0 s = (out2, s2)"
    by (cases "finishTicker i JUndefined 0 s")
  with Cons.prems have
    "fold (\<lambda>i (out, s1). let (out2, s2) = finishTicker i JUndefined 0 s1 in (out @ out2, s2))
      ks (out0 @ out2, s2) = (out', s')" by simp
  from Cons.IH [OF this] have
    k: "map fst (toolRuns s') = filter (\<lambda>k. k \<notin> set ks) (map fst (toolRuns s2))"
    and w: "wf_state s2 \<and> tight s2 \<longrightarrow> wf_state s' \<and> tight s'" by simp_all
  from finishTicker_keys [OF f]
  have "map fst (toolRuns s2) = filter (\<lambda>k. k \<noteq> i) (map fst (toolRuns s))"
    by (simp add: removeAll_filter_not_eq) (metis (mono_tags, lifting) filter_cong)
  with k have "map fst (toolRuns s') = filter (\<lambda>k. k \<notin> set (i # ks)) (map fst (toolRuns s))"
    by (simp add: conj_commute)
  moreover have "wf_state s' \<and> tight s'" if "wf_state s \<and> tight s"
    using that w finishTicker_wf [OF _ f] finishTicker_tight [OF _ _ f] by blast
  ultimately show ?case by blast
qed

lemma cleanup_empties:
  assumes "cleanup s = (out, s')"
  shows "toolRuns s' = [] \<and> (wf_state s \<and> tight s \<longrightarrow> wf_state s' \<and> tight s')"
proof -
  from assms cleanup_fold [of "map fst (toolRuns s)" "[]" s out s']
  have k: "map fst (toolRuns s') = filter (\<lambda>k. k \<notin> set (map fst (toolRuns s))) (map fst (toolRuns s))"
    and w: "wf_state s \<and> tight s \<longrightarrow> wf_state s' \<and> tight s'"
    by (simp_all add: cleanup_def)
  from k have "map fst (toolRuns s') = []" by (simp add: filter_empty_conv)
  with w show ?thesis by simp
qed

text \<open>The registry is empty after every run.\<close>

lemma run_empties_registry:
  assumes "run evs = Inr (out, s)"
  shows "toolRuns s = []"
proof -
  from run_output [OF assms] obtain out1 s1 where "s = snd (cleanup s1)" by blast
  with cleanup_empties [of s1 "fst (cleanup s1)" s] show ?thesis by simp
qed

lemma tight_empty_registry:
  assumes "tight s" "toolRuns s = []"
  shows "list_all cleared (intervals s) \<and> cancelled s = length (intervals s)"
proof -
  from assms(2) have "registry s i = None" for i by (simp add: registry_def)
  with assms(1) have a: "\<forall>h<length (intervals s). cleared (intervals s ! h)"
    unfolding tight_def by simp
  then have all: "list_all cleared (intervals s)"
    by (simp add: list_all_length)
  then have "filter cleared (intervals s) = intervals s"
    by (simp add: list_all_iff)
  with assms(1) all show ?thesis unfolding tight_def by simp
qed

text \<open>
  When no \<open>tool_use\<close> block carries an id that is still registered, the run ends with
  an empty registry, every interval cleared, and as many \<open>clearInterval\<close> calls as
  intervals started.
\<close>

lemma no_timer_leak_without_redispatch:
  assumes "run evs = Inr (out, s)" "fresh_steps evs init"
  shows "toolRuns s = [] \<and> list_all cleared (intervals s) \<and> cancelled s = length (intervals s)"
proof -
  from run_output [OF assms(1)] obtain out1 s1 where
    1: "steps evs init = Inr (out1, s1)" and s: "s = snd (cleanup s1)" by blast
  have w1: "wf_state s1" using steps_wf [OF wf_init 1] .
  have t1: "tight s1" using steps_tight [OF wf_init tight_init 1 assms(2)] .
  from cleanup_empties [of s1 "fst (cleanup s1)" s] s w1 t1
  have "toolRuns s = []" "tight s" by simp_all
  with tight_empty_registry [of s] show ?thesis by simp
qed

text \<open>
  C1 fails on the code. When an id is dispatched twice with no completion between, the
  second \<open>toolRuns.set\<close> replaces the entry without clearing its interval: after the
  run, the registry is empty, two intervals were started, one was cleared, and the first
  still fires.
\<close>

theorem repeated_dispatch_leaks_timer:
  "run [Message (Assistant [(ToolUse (Some (str ''t1'')) (str ''Task'')
            (JObj [(str ''subagent_type'', JStr (str ''researcher''))]), 0)]),
        Message (Assistant [(ToolUse (Some (str ''t1'')) (str ''Task'')
            (JObj [(str ''subagent_type'', JStr (str ''researcher''))]), 100)]),
        Message (Result 1200 (341 / 10000))]
   = Inr ([Delegating (JStr (str ''researcher'')) [], Delegating (JStr (str ''researcher'')) [],
           TotalDuration 1200, TotalCost (341 / 10000), Finished],
       \<lparr>toolRuns = [],
        intervals = [\<lparr>ilabel = JStr (str ''researcher''), istart = 0, cleared = False\<rparr>,
                     \<lparr>ilabel = JStr (str ''researcher''), istart = 100, cleared = True\<rparr>],
        cancelled = 1\<rparr>)
   \<and> tick 0 5000
       \<lparr>toolRuns = [],
        intervals = [\<lparr>ilabel = JStr (str ''researcher''), istart = 0, cleared = False\<rparr>,
                     \<lparr>ilabel = JStr (str ''researcher''), istart = 100, cleared = True\<rparr>],
        cancelled = 1\<rparr> = [StillWorking (JStr (str ''researcher'')) 5]"
  by (simp add: run_def cleanup_def eval_defs tick_def elapsed_secs_def)

end
